theory Spec2Isabelle
  imports Complex_Main "HOL-Library.Log_Nat"
begin

section \<open>JavaScript values\<close>

text \<open>
  A JavaScript \<^verbatim>\<open>number\<close> is modelled as an exact rational, extended with the two
  infinities and NaN, so that division by zero is what JavaScript makes of it and not
  HOL's \<open>x / 0 = 0\<close>. The rounding error of binary64 arithmetic is not modelled, and
  there is a single zero: on the non-negative operands that image dimensions and
  positive targets are, the negative zero never arises.
\<close>

datatype jsnum = Num rat | PInf | NInf | NaN

fun js_div :: "jsnum \<Rightarrow> jsnum \<Rightarrow> jsnum" where
  "js_div NaN _ = NaN"
| "js_div _ NaN = NaN"
| "js_div (Num a) (Num b) =
     (if b = 0 then (if a = 0 then NaN else if 0 < a then PInf else NInf) else Num (a / b))"
| "js_div (Num a) PInf = Num 0"
| "js_div (Num a) NInf = Num 0"
| "js_div PInf (Num b) = (if b < 0 then NInf else PInf)"
| "js_div NInf (Num b) = (if b < 0 then PInf else NInf)"
| "js_div PInf PInf = NaN"
| "js_div PInf NInf = NaN"
| "js_div NInf PInf = NaN"
| "js_div NInf NInf = NaN"

fun js_mul :: "jsnum \<Rightarrow> jsnum \<Rightarrow> jsnum" where
  "js_mul NaN _ = NaN"
| "js_mul _ NaN = NaN"
| "js_mul (Num a) (Num b) = Num (a * b)"
| "js_mul (Num a) PInf = (if a = 0 then NaN else if 0 < a then PInf else NInf)"
| "js_mul (Num a) NInf = (if a = 0 then NaN else if 0 < a then NInf else PInf)"
| "js_mul PInf (Num b) = (if b = 0 then NaN else if 0 < b then PInf else NInf)"
| "js_mul NInf (Num b) = (if b = 0 then NaN else if 0 < b then NInf else PInf)"
| "js_mul PInf PInf = PInf"
| "js_mul PInf NInf = NInf"
| "js_mul NInf PInf = NInf"
| "js_mul NInf NInf = PInf"

text \<open>\<^verbatim>\<open>Math.round\<close> rounds to the nearest integer, a tie going up.\<close>

fun Math_round :: "jsnum \<Rightarrow> jsnum" where
  "Math_round (Num r) = Num (of_int \<lfloor>r + 1 / 2\<rfloor>)"
| "Math_round v = v"

text \<open>
  Truthiness of a \<^verbatim>\<open>number | null | undefined\<close>: \<open>None\<close> stands for
  \<^verbatim>\<open>null\<close> and \<^verbatim>\<open>undefined\<close>; zero and NaN are falsy too.
\<close>

fun truthy :: "jsnum option \<Rightarrow> bool" where
  "truthy None = False"
| "truthy (Some NaN) = False"
| "truthy (Some (Num r)) = (r \<noteq> 0)"
| "truthy (Some PInf) = True"
| "truthy (Some NInf) = True"

text \<open>
  The numeric value of a target where the source uses one; the source does so only
  behind a truthiness test, so the value at \<open>None\<close> is never read.
\<close>

fun num_of :: "jsnum option \<Rightarrow> jsnum" where
  "num_of (Some v) = v"
| "num_of None = NaN"

subsection \<open>\<^verbatim>\<open>Number.parseInt\<close> with no radix\<close>

text \<open>
  Leading white space is skipped, a sign is read, a prefix \<^verbatim>\<open>0x\<close> selects
  radix 16, and the longest run of digits of the radix is the value; with no digit the
  result is NaN. White space is the ASCII part of JavaScript's.
\<close>

definition isWhiteSpace :: "char \<Rightarrow> bool" where
  "isWhiteSpace c = (c \<in> set [CHR '' '', CHR 0x09, CHR 0x0A, CHR 0x0B, CHR 0x0C, CHR 0x0D])"

definition digitValue :: "char \<Rightarrow> nat option" where
  "digitValue c =
     (let n = of_char c :: nat in
      if 48 \<le> n \<and> n \<le> 57 then Some (n - 48)
      else if 97 \<le> n \<and> n \<le> 122 then Some (n - 87)
      else if 65 \<le> n \<and> n \<le> 90 then Some (n - 55)
      else None)"

definition isRadixDigit :: "nat \<Rightarrow> char \<Rightarrow> bool" where
  "isRadixDigit radix c = (case digitValue c of None \<Rightarrow> False | Some d \<Rightarrow> d < radix)"

fun digitsValue :: "nat \<Rightarrow> nat \<Rightarrow> string \<Rightarrow> nat" where
  "digitsValue radix acc [] = acc"
| "digitsValue radix acc (c # cs) =
     digitsValue radix (acc * radix + (case digitValue c of None \<Rightarrow> 0 | Some d \<Rightarrow> d)) cs"

definition parseInt :: "string \<Rightarrow> jsnum" where
  "parseInt s =
     (let s1 = dropWhile isWhiteSpace s;
          negative = (case s1 of c # _ \<Rightarrow> c = CHR ''-'' | [] \<Rightarrow> False);
          s2 = (case s1 of c # r \<Rightarrow> if c = CHR ''-'' \<or> c = CHR ''+'' then r else s1 | [] \<Rightarrow> s1);
          hex = (take 2 s2 = ''0x'' \<or> take 2 s2 = ''0X'');
          radix = (if hex then 16 else 10);
          s3 = (if hex then drop 2 s2 else s2);
          ds = takeWhile (isRadixDigit radix) s3
      in if ds = [] then NaN
         else Num (of_nat (digitsValue radix 0 ds) * (if negative then - 1 else 1)))"

section \<open>The data model\<close>

type_synonym bytes = "nat list"

record Blob =
  blob_data :: bytes
  blob_type :: string

record File =
  file_data :: bytes
  file_name :: string
  file_type :: string

record Dimensions =
  dim_width :: jsnum
  dim_height :: jsnum

text \<open>An object URL is identified by the number of the allocation that made it.\<close>

type_synonym url = nat

text \<open>
  \<^verbatim>\<open>interface CompressedImage\<close>: an optional field is an \<open>option\<close>, \<open>None\<close> for
  \<^verbatim>\<open>undefined\<close>.
\<close>

record CompressedImage =
  fileObj :: File
  preview :: url
  compressedPreview :: "url option"
  compressed :: "Blob option"
  originalSize :: nat
  compressedSize :: "nat option"
  processing :: "bool option"
  dimensions :: "Dimensions option"
  quality :: int
  width :: string
  height :: string

section \<open>The dimension resolver\<close>

text \<open>
  \<^verbatim>\<open>img.width ? Number.parseInt(img.width) : null\<close>: the empty string is the
  falsy one.
\<close>

definition parseTarget :: "string \<Rightarrow> jsnum option" where
  "parseTarget s = (if s \<noteq> [] then Some (parseInt s) else None)"

definition calculateFinalDimensions :: "CompressedImage \<Rightarrow> Dimensions option" where
  "calculateFinalDimensions img =
     (case dimensions img of
        None \<Rightarrow> None
      | Some dims \<Rightarrow>
          let targetWidth = parseTarget (width img);
              targetHeight = parseTarget (height img)
          in if \<not> truthy targetWidth \<and> \<not> truthy targetHeight then Some dims
             else if truthy targetWidth \<and> truthy targetHeight
               then Some \<lparr>dim_width = num_of targetWidth, dim_height = num_of targetHeight\<rparr>
             else
               let aspectRatio = js_div (dim_width dims) (dim_height dims)
               in if truthy targetWidth
                    then Some \<lparr>dim_width = num_of targetWidth,
                      dim_height = Math_round (js_div (num_of targetWidth) aspectRatio)\<rparr>
                  else if truthy targetHeight
                    then Some \<lparr>dim_width = Math_round (js_mul (num_of targetHeight) aspectRatio),
                      dim_height = num_of targetHeight\<rparr>
                  else Some dims)"

section \<open>The browser\<close>

text \<open>
  What the platform decides is an input of the model: decoding, the drawing surface, the
  codec and the PNG encoder are functions of an environment, each free to fail. A canvas
  is described by its size and the one \<^verbatim>\<open>drawImage\<close> call made on it.
\<close>

record ImageBitmap =
  bmp_width :: nat
  bmp_height :: nat
  bmp_pixels :: bytes

type_synonym rect = "jsnum \<times> jsnum \<times> jsnum \<times> jsnum"

record Paint =
  paint_image :: ImageBitmap
  paint_src :: rect
  paint_dst :: rect

record Canvas =
  canvas_width :: jsnum
  canvas_height :: jsnum
  canvas_paint :: "Paint option"

record ImageData =
  data_pixels :: bytes
  data_width :: jsnum
  data_height :: jsnum

datatype Failure =
  ImportFailed | FetchFailed | DecodeFailed | NoCanvasContext | ImageDataFailed
  | CodecFailed | BlobFailed

record Env =
  importEncoder :: bool
  createImageBitmap :: "bytes \<Rightarrow> ImageBitmap option"
  getContext :: "Canvas \<Rightarrow> bool"
  getImageData :: "Canvas \<Rightarrow> rect \<Rightarrow> bytes option"
  encode :: "ImageData \<Rightarrow> int \<Rightarrow> nat \<Rightarrow> bytes option"
  toBlob :: "Canvas \<Rightarrow> string \<Rightarrow> bytes option"
  fetchBlob :: "url \<Rightarrow> bytes option"
  probeImage :: "File \<Rightarrow> Dimensions option"

text \<open>
  Object URLs: \<^verbatim>\<open>URL.createObjectURL\<close> returns a URL never returned before,
  \<^verbatim>\<open>URL.revokeObjectURL\<close> releases one.
\<close>

record UrlStore =
  live :: "url set"
  next_url :: url

definition createObjectURL :: "UrlStore \<Rightarrow> url \<times> UrlStore" where
  "createObjectURL st =
     (next_url st, st\<lparr>live := insert (next_url st) (live st), next_url := Suc (next_url st)\<rparr>)"

definition revokeObjectURL :: "url \<Rightarrow> UrlStore \<Rightarrow> UrlStore" where
  "revokeObjectURL u st = st\<lparr>live := live st - {u}\<rparr>"

section \<open>The encode pipeline\<close>

text \<open>
  \<^verbatim>\<open>compressImageWithJSquash\<close>. The whole bitmap is drawn, scaled to the resolved
  size when a target is set; the pixels read back go to the codec with the quality and
  a speed of 8 for a preview, 4 otherwise.
\<close>

definition wholeBitmap :: "ImageBitmap \<Rightarrow> rect" where
  "wholeBitmap img = (Num 0, Num 0, Num (of_nat (bmp_width img)), Num (of_nat (bmp_height img)))"

definition encodeCanvas ::
    "Env \<Rightarrow> Canvas \<Rightarrow> jsnum \<Rightarrow> jsnum \<Rightarrow> int \<Rightarrow> bool \<Rightarrow> Failure + Blob \<times> Dimensions" where
  "encodeCanvas env canvas finalWidth finalHeight targetQuality isPreview =
     (if \<not> getContext env (canvas\<lparr>canvas_paint := None\<rparr>) then Inl NoCanvasContext
      else
        case getImageData env canvas (Num 0, Num 0, finalWidth, finalHeight) of
          None \<Rightarrow> Inl ImageDataFailed
        | Some pixels \<Rightarrow>
            (case encode env
                \<lparr>data_pixels = pixels, data_width = finalWidth, data_height = finalHeight\<rparr>
                targetQuality (if isPreview then 8 else 4) of
               None \<Rightarrow> Inl CodecFailed
             | Some avifData \<Rightarrow>
                 Inr (\<lparr>blob_data = avifData, blob_type = ''image/avif''\<rparr>,
                      \<lparr>dim_width = finalWidth, dim_height = finalHeight\<rparr>)))"

definition compressImageWithJSquash ::
    "Env \<Rightarrow> File \<Rightarrow> int \<Rightarrow> jsnum option \<Rightarrow> jsnum option \<Rightarrow> bool
      \<Rightarrow> Failure + Blob \<times> Dimensions" where
  "compressImageWithJSquash env f targetQuality targetWidth targetHeight isPreview =
     (if \<not> importEncoder env then Inl ImportFailed
      else
        case createImageBitmap env (file_data f) of
          None \<Rightarrow> Inl DecodeFailed
        | Some img \<Rightarrow>
            let imgWidth = Num (of_nat (bmp_width img));
                imgHeight = Num (of_nat (bmp_height img))
            in if truthy targetWidth \<or> truthy targetHeight then
                 let (finalWidth, finalHeight) =
                       (if truthy targetWidth \<and> truthy targetHeight
                          then (num_of targetWidth, num_of targetHeight)
                        else if truthy targetWidth
                          then (num_of targetWidth,
                                Math_round (js_mul (js_div imgHeight imgWidth) (num_of targetWidth)))
                        else if truthy targetHeight
                          then (Math_round (js_mul (js_div imgWidth imgHeight) (num_of targetHeight)),
                                num_of targetHeight)
                        else (imgWidth, imgHeight))
                 in encodeCanvas env
                      \<lparr>canvas_width = finalWidth, canvas_height = finalHeight,
                       canvas_paint = Some \<lparr>paint_image = img, paint_src = wholeBitmap img,
                         paint_dst = (Num 0, Num 0, finalWidth, finalHeight)\<rparr>\<rparr>
                      finalWidth finalHeight targetQuality isPreview
               else
                 encodeCanvas env
                   \<lparr>canvas_width = imgWidth, canvas_height = imgHeight,
                    canvas_paint = Some \<lparr>paint_image = img, paint_src = wholeBitmap img,
                      paint_dst = wholeBitmap img\<rparr>\<rparr>
                   imgWidth imgHeight targetQuality isPreview)"

section \<open>The registry and its state\<close>

text \<open>
  The component's state: the \<^verbatim>\<open>images\<close> array, the map of preview timers, the
  browser's timer queue with a clock in milliseconds, the object URLs, the asynchronous
  work that has started and not yet settled, the toasts shown and the crop dialog.

  Each render of the component binds the constant \<^verbatim>\<open>images\<close> afresh
  (\<^verbatim>\<open>const [images, setImages] = useState(...)\<close>) and defines its functions over it.
  A function that reads \<^verbatim>\<open>images[index]\<close>, as \<^verbatim>\<open>updatePreview\<close>,
  \<^verbatim>\<open>compressImage\<close> and \<^verbatim>\<open>applyCrop\<close> do in their first lines, therefore reads
  the array of the render that defined it, whereas a \<^verbatim>\<open>setImages(prev => ...)\<close>
  updater is applied to the newest array. The functions below take the array of their
  render as the argument \<open>rendered\<close>; a timer keeps the one of the handler that armed
  it. An updater is applied at once, in the order of the calls.

  The aspect-ratio controls of the crop dialog and the position and zoom of its overlay
  only shape the rectangle the overlay reports; the rectangle is an input here.
\<close>

datatype Fault = TypeError | IllTyped

datatype Notice = SuccessToast string | ErrorToast string | FailureToast Failure

datatype Setting = Quality int | Width string | Height string

record Area =
  area_x :: jsnum
  area_y :: jsnum
  area_width :: jsnum
  area_height :: jsnum

datatype Task =
  PreviewTask nat CompressedImage
  | CompressTask nat CompressedImage
  | CropTask nat CompressedImage Area

record Timer =
  timer_id :: nat
  timer_due :: nat
  timer_index :: nat
  timer_images :: "CompressedImage list"

record World =
  images :: "CompressedImage list"
  urls :: UrlStore
  previewTimeoutRefs :: "nat \<rightharpoonup> nat"
  timerQueue :: "Timer list"
  nextTimerId :: nat
  clock :: nat
  inflight :: "Task list"
  toasts :: "Notice list"
  cropModalOpen :: bool
  currentCropIndex :: "nat option"
  croppedAreaPixels :: "Area option"

text \<open>\<^verbatim>\<open>images[index]\<close>, which is \<^verbatim>\<open>undefined\<close> past the end.\<close>

definition imageAt :: "CompressedImage list \<Rightarrow> nat \<Rightarrow> CompressedImage option" where
  "imageAt xs index = (if index < length xs then Some (xs ! index) else None)"

text \<open>
  \<^verbatim>\<open>newImages[index] = { ...newImages[index], processing: b }\<close>. Past the end the
  source stores an object with that one field, which is no \<^verbatim>\<open>CompressedImage\<close>; the
  model reports \<open>IllTyped\<close> and goes no further.
\<close>

definition setProcessing ::
    "nat \<Rightarrow> bool \<Rightarrow> CompressedImage list \<Rightarrow> Fault + CompressedImage list" where
  "setProcessing index b prev =
     (if index < length prev then Inr (prev[index := (prev ! index)\<lparr>processing := Some b\<rparr>])
      else Inl IllTyped)"

subsection \<open>Ingestion\<close>

text \<open>
  \<^verbatim>\<open>getImageDimensions\<close> makes an object URL of its own, which nothing revokes, and
  resolves once the image has loaded; it never rejects, so a file that does not load
  leaves the handler waiting for ever (\<open>None\<close> below) and the registry as it was.
  An ingestion is taken as one step: the items are appended when all probes have
  resolved.
\<close>

definition ingestFile :: "Env \<Rightarrow> File \<Rightarrow> UrlStore \<Rightarrow> CompressedImage option \<times> UrlStore" where
  "ingestFile env f st =
     (let (previewUrl, st1) = createObjectURL st;
          (probeUrl, st2) = createObjectURL st1
      in (case probeImage env f of
            None \<Rightarrow> None
          | Some dims \<Rightarrow>
              Some \<lparr>fileObj = f, preview = previewUrl, compressedPreview = None,
                compressed = None, originalSize = length (file_data f), compressedSize = None,
                processing = None, dimensions = Some dims, quality = 75, width = [],
                height = []\<rparr>,
          st2))"

fun ingestFiles :: "Env \<Rightarrow> File list \<Rightarrow> UrlStore \<Rightarrow> CompressedImage list option \<times> UrlStore" where
  "ingestFiles env [] st = (Some [], st)"
| "ingestFiles env (f # fs) st =
     (let (r, st1) = ingestFile env f st;
          (rs, st2) = ingestFiles env fs st1
      in (case r of
            None \<Rightarrow> None
          | Some i \<Rightarrow> (case rs of None \<Rightarrow> None | Some is \<Rightarrow> Some (i # is)),
          st2))"

definition handleFileInput :: "Env \<Rightarrow> File list \<Rightarrow> World \<Rightarrow> World" where
  "handleFileInput env files w =
     (let (r, st) = ingestFiles env files (urls w)
      in case r of
           None \<Rightarrow> w\<lparr>urls := st\<rparr>
         | Some new \<Rightarrow> w\<lparr>urls := st, images := images w @ new\<rparr>)"

definition handleDrop :: "Env \<Rightarrow> File list \<Rightarrow> World \<Rightarrow> World" where
  "handleDrop env dropped w =
     (let files = filter (\<lambda>f. take 6 (file_type f) = ''image/'') dropped
      in if length files = 0
           then w\<lparr>toasts := toasts w @ [ErrorToast ''Por favor, sube solo archivos de imagen'']\<rparr>
         else handleFileInput env files w)"

subsection \<open>Removal\<close>

text \<open>
  \<^verbatim>\<open>removeImage\<close> revokes the source URL, and the preview URL when there is one, and
  splices the item out. Past the end \<^verbatim>\<open>newImages[index].preview\<close> raises a
  \<^verbatim>\<open>TypeError\<close>. The map of timers is keyed by position and is left as it is.
\<close>

definition removeImage :: "nat \<Rightarrow> World \<Rightarrow> Fault + World" where
  "removeImage index w =
     (if index < length (images w) then
        let img = images w ! index;
            st1 = revokeObjectURL (preview img) (urls w);
            st2 = (case compressedPreview img of
                     Some u \<Rightarrow> revokeObjectURL u st1
                   | None \<Rightarrow> st1)
        in Inr (w\<lparr>images := take index (images w) @ drop (Suc index) (images w), urls := st2\<rparr>)
      else Inl TypeError)"

subsection \<open>Settings and the debounce timer\<close>

definition applySetting :: "Setting \<Rightarrow> CompressedImage \<Rightarrow> CompressedImage" where
  "applySetting s img =
     (case s of
        Quality v \<Rightarrow> img\<lparr>quality := v\<rparr>
      | Width v \<Rightarrow> img\<lparr>width := v\<rparr>
      | Height v \<Rightarrow> img\<lparr>height := v\<rparr>)"

definition clearTimeout :: "nat \<Rightarrow> Timer list \<Rightarrow> Timer list" where
  "clearTimeout tid q = filter (\<lambda>t. timer_id t \<noteq> tid) q"

text \<open>
  \<^verbatim>\<open>updateImageSettings\<close>: the updater stores the value, the timer the map holds for
  the index is cleared when its identifier is truthy, a timer of 1500 ms is set and the
  map is given its identifier. The callback is \<^verbatim>\<open>() => updatePreview(index)\<close> with
  \<^verbatim>\<open>updatePreview\<close> of this render, so the timer records the index and \<open>rendered\<close>.
  Past the end of the array the updater stores an object that has the one field only;
  the model reports \<open>IllTyped\<close>.
\<close>

definition updateImageSettings ::
    "CompressedImage list \<Rightarrow> nat \<Rightarrow> Setting \<Rightarrow> World \<Rightarrow> Fault + World" where
  "updateImageSettings rendered index s w =
     (if index < length (images w) then
        let newImages = (images w)[index := applySetting s (images w ! index)];
            q1 = (case previewTimeoutRefs w index of
                    Some timeoutId \<Rightarrow>
                      if timeoutId \<noteq> 0 then clearTimeout timeoutId (timerQueue w)
                      else timerQueue w
                  | None \<Rightarrow> timerQueue w);
            newTimeoutId = nextTimerId w;
            q2 = q1 @ [\<lparr>timer_id = newTimeoutId, timer_due = clock w + 1500,
                         timer_index = index, timer_images = rendered\<rparr>]
        in Inr (w\<lparr>images := newImages, timerQueue := q2,
                  nextTimerId := Suc newTimeoutId,
                  previewTimeoutRefs := (previewTimeoutRefs w)(index \<mapsto> newTimeoutId)\<rparr>)
      else Inl IllTyped)"

subsection \<open>Preview regeneration and explicit compression\<close>

text \<open>
  An asynchronous function runs up to its \<^verbatim>\<open>await\<close>, and its continuation runs when
  the awaited work settles: \<open>_start\<close> is the first part, \<open>_then\<close> the continuation
  of a success and \<open>_catch\<close> the handler of a failure. Between the two the function is
  a task in flight, holding the \<^verbatim>\<open>img\<close> it read at the start. Past the end of the
  newest array the updater of a success raises a \<^verbatim>\<open>TypeError\<close> on
  \<^verbatim>\<open>newImages[index].compressedPreview\<close>. A failure of \<^verbatim>\<open>compressImage\<close> is
  shown in a toast that carries the error's message; a failure of
  \<^verbatim>\<open>updatePreview\<close> is written to the console only, which the model leaves out.
\<close>

definition updatePreview_start :: "CompressedImage list \<Rightarrow> nat \<Rightarrow> World \<Rightarrow> Fault + World" where
  "updatePreview_start rendered index w =
     (case imageAt rendered index of
        None \<Rightarrow> Inr w
      | Some img \<Rightarrow>
          (case setProcessing index True (images w) of
             Inl e \<Rightarrow> Inl e
           | Inr newImages \<Rightarrow>
               Inr (w\<lparr>images := newImages, inflight := inflight w @ [PreviewTask index img]\<rparr>)))"

definition updatePreview_then :: "nat \<Rightarrow> Blob \<Rightarrow> World \<Rightarrow> Fault + World" where
  "updatePreview_then index blob w =
     (let (newUrl, st1) = createObjectURL (urls w)
      in if index < length (images w) then
           let st2 = (case compressedPreview (images w ! index) of
                        Some u \<Rightarrow> revokeObjectURL u st1
                      | None \<Rightarrow> st1)
           in Inr (w\<lparr>images := (images w)[index := (images w ! index)
                       \<lparr>compressedPreview := Some newUrl,
                        compressedSize := Some (length (blob_data blob)),
                        processing := Some False\<rparr>],
                     urls := st2\<rparr>)
         else Inl TypeError)"

definition updatePreview_catch :: "nat \<Rightarrow> World \<Rightarrow> Fault + World" where
  "updatePreview_catch index w =
     (case setProcessing index False (images w) of
        Inl e \<Rightarrow> Inl e
      | Inr newImages \<Rightarrow> Inr (w\<lparr>images := newImages\<rparr>))"

definition compressImage_start :: "CompressedImage list \<Rightarrow> nat \<Rightarrow> World \<Rightarrow> Fault + World" where
  "compressImage_start rendered index w =
     (case imageAt rendered index of
        None \<Rightarrow> Inr w
      | Some img \<Rightarrow>
          (case setProcessing index True (images w) of
             Inl e \<Rightarrow> Inl e
           | Inr newImages \<Rightarrow>
               Inr (w\<lparr>images := newImages, inflight := inflight w @ [CompressTask index img]\<rparr>)))"

definition compressImage_then :: "nat \<Rightarrow> Blob \<Rightarrow> World \<Rightarrow> Fault + World" where
  "compressImage_then index blob w =
     (let (newUrl, st1) = createObjectURL (urls w)
      in if index < length (images w) then
           let st2 = (case compressedPreview (images w ! index) of
                        Some u \<Rightarrow> revokeObjectURL u st1
                      | None \<Rightarrow> st1)
           in Inr (w\<lparr>images := (images w)[index := (images w ! index)
                       \<lparr>compressed := Some blob,
                        compressedSize := Some (length (blob_data blob)),
                        compressedPreview := Some newUrl,
                        processing := Some False\<rparr>],
                     urls := st2,
                     toasts := toasts w @ [SuccessToast ''Imagen comprimida correctamente'']\<rparr>)
         else Inl TypeError)"

definition compressImage_catch :: "Failure \<Rightarrow> nat \<Rightarrow> World \<Rightarrow> Fault + World" where
  "compressImage_catch err index w =
     (case setProcessing index False (images w) of
        Inl e \<Rightarrow> Inl e
      | Inr newImages \<Rightarrow>
          Inr (w\<lparr>images := newImages, toasts := toasts w @ [FailureToast err]\<rparr>))"

text \<open>The pipeline as both callers invoke it, on the image the task holds.\<close>

definition encodeFor :: "Env \<Rightarrow> CompressedImage \<Rightarrow> bool \<Rightarrow> Failure + Blob \<times> Dimensions" where
  "encodeFor env img isPreview =
     compressImageWithJSquash env (fileObj img) (quality img)
       (parseTarget (width img)) (parseTarget (height img)) isPreview"

subsection \<open>The crop\<close>

text \<open>
  \<^verbatim>\<open>createCroppedImage\<close>: the source is fetched and decoded, the context is asked of a
  new canvas (300 by 150 until sized), the canvas takes the size of the rectangle and
  the rectangle is drawn onto it at the origin in that same size; the result is the PNG
  of the canvas.
\<close>

definition createCroppedImage :: "Env \<Rightarrow> url \<Rightarrow> Area \<Rightarrow> Failure + File \<times> Blob" where
  "createCroppedImage env imageSrc area =
     (case fetchBlob env imageSrc of
        None \<Rightarrow> Inl FetchFailed
      | Some fetched \<Rightarrow>
          (case createImageBitmap env fetched of
             None \<Rightarrow> Inl DecodeFailed
           | Some bitmap \<Rightarrow>
               if \<not> getContext env
                    \<lparr>canvas_width = Num 300, canvas_height = Num 150, canvas_paint = None\<rparr>
                 then Inl NoCanvasContext
               else
                 let canvas =
                       \<lparr>canvas_width = area_width area, canvas_height = area_height area,
                        canvas_paint = Some \<lparr>paint_image = bitmap,
                          paint_src = (area_x area, area_y area, area_width area, area_height area),
                          paint_dst = (Num 0, Num 0, area_width area, area_height area)\<rparr>\<rparr>
                 in (case toBlob env canvas ''image/png'' of
                       None \<Rightarrow> Inl BlobFailed
                     | Some png \<Rightarrow>
                         Inr (\<lparr>file_data = png, file_name = ''cropped-image.png'',
                                file_type = ''image/png''\<rparr>,
                              \<lparr>blob_data = png, blob_type = ''image/png''\<rparr>))))"

definition openCropModal :: "nat \<Rightarrow> World \<Rightarrow> World" where
  "openCropModal index w =
     w\<lparr>currentCropIndex := Some index, croppedAreaPixels := None, cropModalOpen := True\<rparr>"

definition onCropComplete :: "Area \<Rightarrow> World \<Rightarrow> World" where
  "onCropComplete area w = w\<lparr>croppedAreaPixels := Some area\<rparr>"

definition applyCrop_start :: "CompressedImage list \<Rightarrow> World \<Rightarrow> World" where
  "applyCrop_start rendered w =
     (case currentCropIndex w of
        None \<Rightarrow> w
      | Some index \<Rightarrow>
          (case croppedAreaPixels w of
             None \<Rightarrow> w
           | Some area \<Rightarrow>
               (case imageAt rendered index of
                  None \<Rightarrow> w
                | Some img \<Rightarrow> w\<lparr>inflight := inflight w @ [CropTask index img area]\<rparr>)))"

text \<open>
  The continuation after \<^verbatim>\<open>createCroppedImage\<close>: a URL for the new source, the
  probe of the new file (which makes a URL too and may never resolve), then the update
  of the item, the closing of the dialog and the toast.
\<close>

definition applyCrop_then :: "Env \<Rightarrow> nat \<Rightarrow> File \<Rightarrow> Blob \<Rightarrow> World \<Rightarrow> Fault + World" where
  "applyCrop_then env index f blob w =
     (let (newPreview, st1) = createObjectURL (urls w);
          (probeUrl, st2) = createObjectURL st1
      in case probeImage env f of
           None \<Rightarrow> Inr (w\<lparr>urls := st2\<rparr>)
         | Some dims \<Rightarrow>
             if index < length (images w) then
               let st3 = revokeObjectURL (preview (images w ! index)) st2;
                   st4 = (case compressedPreview (images w ! index) of
                            Some u \<Rightarrow> revokeObjectURL u st3
                          | None \<Rightarrow> st3)
               in Inr (w\<lparr>images := (images w)[index := (images w ! index)
                           \<lparr>fileObj := f, preview := newPreview,
                            originalSize := length (blob_data blob),
                            dimensions := Some dims, compressedPreview := None,
                            compressed := None, compressedSize := None\<rparr>],
                         urls := st4, cropModalOpen := False, currentCropIndex := None,
                         toasts := toasts w @ [SuccessToast ''Imagen recortada correctamente'']\<rparr>)
             else Inl TypeError)"

definition applyCrop_catch :: "World \<Rightarrow> World" where
  "applyCrop_catch w =
     w\<lparr>toasts := toasts w @ [ErrorToast ''Hubo un problema al recortar la imagen'']\<rparr>"

subsection \<open>Events\<close>

text \<open>A task in flight settles: the environment gives its outcome, its continuation runs.\<close>

definition settleTask :: "Env \<Rightarrow> Task \<Rightarrow> World \<Rightarrow> Fault + World" where
  "settleTask env task w =
     (case task of
        PreviewTask index img \<Rightarrow>
          (case encodeFor env img True of
             Inr (blob, dims) \<Rightarrow> updatePreview_then index blob w
           | Inl err \<Rightarrow> updatePreview_catch index w)
      | CompressTask index img \<Rightarrow>
          (case encodeFor env img False of
             Inr (blob, dims) \<Rightarrow> compressImage_then index blob w
           | Inl err \<Rightarrow> compressImage_catch err index w)
      | CropTask index img area \<Rightarrow>
          (case createCroppedImage env (preview img) area of
             Inr (f, blob) \<Rightarrow> applyCrop_then env index f blob w
           | Inl err \<Rightarrow> Inr (applyCrop_catch w)))"

definition settle :: "Env \<Rightarrow> nat \<Rightarrow> World \<Rightarrow> Fault + World" where
  "settle env k w =
     (if k < length (inflight w)
        then settleTask env (inflight w ! k)
               (w\<lparr>inflight := take k (inflight w) @ drop (Suc k) (inflight w)\<rparr>)
      else Inr w)"

text \<open>A timer that is due leaves the queue and runs its callback.\<close>

definition fireTimer :: "Timer \<Rightarrow> World \<Rightarrow> Fault + World" where
  "fireTimer tm w =
     updatePreview_start (timer_images tm) (timer_index tm)
       (w\<lparr>timerQueue := clearTimeout (timer_id tm) (timerQueue w)\<rparr>)"

fun fireAll :: "Timer list \<Rightarrow> World \<Rightarrow> Fault + World" where
  "fireAll [] w = Inr w"
| "fireAll (tm # tms) w = (case fireTimer tm w of Inl e \<Rightarrow> Inl e | Inr w1 \<Rightarrow> fireAll tms w1)"

definition advance :: "nat \<Rightarrow> World \<Rightarrow> Fault + World" where
  "advance t w =
     (case fireAll (filter (\<lambda>tm. timer_due tm \<le> t) (timerQueue w)) w of
        Inl e \<Rightarrow> Inl e
      | Inr w1 \<Rightarrow> Inr (w1\<lparr>clock := max t (clock w1)\<rparr>))"

text \<open>
  What the user and the platform do. A handler is the one of the last render, whose
  \<^verbatim>\<open>images\<close> is the state at the time of the event.
\<close>

datatype Action =
  FileInput "File list"
  | Drop "File list"
  | UpdateSetting nat Setting
  | Compress nat
  | Remove nat
  | OpenCrop nat
  | CropComplete Area
  | ApplyCrop
  | Settle nat
  | Wait

definition dispatch :: "Env \<Rightarrow> Action \<Rightarrow> World \<Rightarrow> Fault + World" where
  "dispatch env a w =
     (case a of
        FileInput files \<Rightarrow> Inr (handleFileInput env files w)
      | Drop files \<Rightarrow> Inr (handleDrop env files w)
      | UpdateSetting index s \<Rightarrow> updateImageSettings (images w) index s w
      | Compress index \<Rightarrow> compressImage_start (images w) index w
      | Remove index \<Rightarrow> removeImage index w
      | OpenCrop index \<Rightarrow> Inr (openCropModal index w)
      | CropComplete area \<Rightarrow> Inr (onCropComplete area w)
      | ApplyCrop \<Rightarrow> Inr (applyCrop_start (images w) w)
      | Settle k \<Rightarrow> settle env k w
      | Wait \<Rightarrow> Inr w)"

text \<open>A run: each action at its time, the timers due by then fired first.\<close>

fun run :: "Env \<Rightarrow> (nat \<times> Action) list \<Rightarrow> World \<Rightarrow> Fault + World" where
  "run env [] w = Inr w"
| "run env ((t, a) # rest) w =
     (case advance t w of
        Inl e \<Rightarrow> Inl e
      | Inr w1 \<Rightarrow> (case dispatch env a w1 of Inl e \<Rightarrow> Inl e | Inr w2 \<Rightarrow> run env rest w2))"

definition emptyWorld :: World where
  "emptyWorld =
     \<lparr>images = [], urls = \<lparr>live = {}, next_url = 0\<rparr>, previewTimeoutRefs = Map.empty,
      timerQueue = [], nextTimerId = 1, clock = 0, inflight = [], toasts = [],
      cropModalOpen = False, currentCropIndex = None, croppedAreaPixels = None\<rparr>"

section \<open>The size formatter\<close>





section \<open>Notions the properties are stated with\<close>

text \<open>
  Every URL in use was made by \<^verbatim>\<open>createObjectURL\<close>: the live ones and the ones the
  items hold are below the next one to be made.
\<close>

definition urlsFresh :: "World \<Rightarrow> bool" where
  "urlsFresh w =
     ((\<forall>u \<in> live (urls w). u < next_url (urls w)) \<and>
      (\<forall>img \<in> set (images w).
         preview img < next_url (urls w) \<and>
         (\<forall>u. compressedPreview img = Some u \<longrightarrow> u < next_url (urls w))))"

text \<open>Preview regenerations of one item that complete one after the other, with their results.\<close>

fun regenerations :: "nat \<Rightarrow> Blob list \<Rightarrow> World \<Rightarrow> Fault + World" where
  "regenerations index [] w = Inr w"
| "regenerations index (blob # blobs) w =
     (case updatePreview_then index blob w of
        Inl e \<Rightarrow> Inl e
      | Inr w1 \<Rightarrow> regenerations index blobs w1)"

text \<open>What the page shows of an item's compressed preview: its URL and its size.\<close>

definition displayed :: "nat \<Rightarrow> Fault + World \<Rightarrow> (url option \<times> nat option) option" where
  "displayed index r =
     (case r of
        Inl e \<Rightarrow> None
      | Inr w \<Rightarrow>
          (case imageAt (images w) index of
             None \<Rightarrow> None
           | Some img \<Rightarrow> Some (compressedPreview img, compressedSize img)))"

text \<open>The settings of an item: the quality and the two requested dimensions as parsed.\<close>

definition settingsOf :: "CompressedImage \<Rightarrow> int \<times> jsnum option \<times> jsnum option" where
  "settingsOf img = (quality img, parseTarget (width img), parseTarget (height img))"

definition taskSettings :: "Task \<Rightarrow> nat \<times> int \<times> jsnum option \<times> jsnum option" where
  "taskSettings task =
     (case task of
        PreviewTask index img \<Rightarrow> (index, settingsOf img)
      | CompressTask index img \<Rightarrow> (index, settingsOf img)
      | CropTask index img area \<Rightarrow> (index, settingsOf img))"

definition registrySettings :: "Fault + World \<Rightarrow> (int \<times> jsnum option \<times> jsnum option) list" where
  "registrySettings r = (case r of Inl e \<Rightarrow> [] | Inr w \<Rightarrow> map settingsOf (images w))"

definition tasksInFlight :: "Fault + World \<Rightarrow> (nat \<times> int \<times> jsnum option \<times> jsnum option) list" where
  "tasksInFlight r = (case r of Inl e \<Rightarrow> [] | Inr w \<Rightarrow> map taskSettings (inflight w))"

definition negativeTarget :: "string \<Rightarrow> bool" where
  "negativeTarget s = (case parseTarget s of Some (Num r) \<Rightarrow> r < 0 | _ \<Rightarrow> False)"

definition settingsValid :: "CompressedImage \<Rightarrow> bool" where
  "settingsValid img =
     (1 \<le> quality img \<and> quality img \<le> 100 \<and>
      \<not> negativeTarget (width img) \<and> \<not> negativeTarget (height img))"




section \<open>Sample inputs\<close>

text \<open>
  The concrete inputs at which the theorems below are instantiated. In the sample
  environment everything succeeds, and the codec returns as many bytes as the quality
  it is given, so that a result tells which quality it was encoded at.
\<close>

definition sampleEnv :: Env where
  "sampleEnv =
     \<lparr>importEncoder = True,
      createImageBitmap = (\<lambda>b. Some \<lparr>bmp_width = 1000, bmp_height = 500, bmp_pixels = b\<rparr>),
      getContext = (\<lambda>c. True),
      getImageData = (\<lambda>c r. Some []),
      encode = (\<lambda>d q s. Some (replicate (nat q) 0)),
      toBlob = (\<lambda>c m. Some [1, 2, 3]),
      fetchBlob = (\<lambda>u. Some [7, 7, 7, 7]),
      probeImage = (\<lambda>f. Some \<lparr>dim_width = Num 1000, dim_height = Num 500\<rparr>)\<rparr>"

definition sampleFile :: File where
  "sampleFile = \<lparr>file_data = [7, 7, 7, 7], file_name = ''a.png'', file_type = ''image/png''\<rparr>"

definition sampleImage :: "string \<Rightarrow> string \<Rightarrow> CompressedImage" where
  "sampleImage w h =
     \<lparr>fileObj = sampleFile, preview = 0, compressedPreview = None, compressed = None,
      originalSize = 4, compressedSize = None, processing = None,
      dimensions = Some \<lparr>dim_width = Num 1000, dim_height = Num 500\<rparr>,
      quality = 75, width = w, height = h\<rparr>"

definition sampleBlob :: Blob where
  "sampleBlob = \<lparr>blob_data = [1, 2, 3], blob_type = ''image/avif''\<rparr>"

definition sampleArea :: Area where
  "sampleArea =
     \<lparr>area_x = Num 10, area_y = Num 20, area_width = Num 400, area_height = Num 300\<rparr>"

text \<open>A registry of one item, whose source URL is the only URL made so far.\<close>

definition sampleWorld :: World where
  "sampleWorld =
     emptyWorld\<lparr>images := [sampleImage [] []], urls := \<lparr>live = {0}, next_url = 1\<rparr>\<rparr>"

text \<open>Environments in which the drawing surface, or the PNG encoder, is not to be had.\<close>

definition noContextEnv :: Env where
  "noContextEnv = sampleEnv\<lparr>getContext := (\<lambda>c. False)\<rparr>"

definition noBlobEnv :: Env where
  "noBlobEnv = sampleEnv\<lparr>toBlob := (\<lambda>c m. None)\<rparr>"

text \<open>
  One file is loaded; its quality is set to 60 and, 90 ms later, to 80; nothing else
  happens until 1600 ms.
\<close>

definition debounceScenario :: "(nat \<times> Action) list" where
  "debounceScenario =
     [(0, FileInput [sampleFile]), (10, UpdateSetting 0 (Quality 60)),
      (100, UpdateSetting 0 (Quality 80)), (1600, Wait)]"

text \<open>
  One file is loaded; its quality is set to 60, and to 80 once the first timer has
  fired, and the second timer fires too: two preview tasks of the item are in flight.
\<close>

definition raceScenario :: "(nat \<times> Action) list" where
  "raceScenario =
     [(0, FileInput [sampleFile]), (10, UpdateSetting 0 (Quality 60)),
      (1600, UpdateSetting 0 (Quality 80)), (3200, Wait)]"


section \<open>The dimension resolver: its cases\<close>


lemma parseInt_cases: "parseInt s = NaN \<or> (\<exists>r. parseInt s = Num r)"
  by (simp add: parseInt_def Let_def)








section \<open>The dimension resolver: idempotence\<close>



lemma truthy_parseTarget:
  "truthy (parseTarget s) \<Longrightarrow> \<exists>r. r \<noteq> 0 \<and> parseTarget s = Some (Num r)"
  using parseInt_cases [of s] by (auto simp add: parseTarget_def split: if_splits)



section \<open>The dimensions the pipeline encodes at\<close>

text \<open>
  The pipeline resolves the size by the same rules, from the decoded bitmap: when the
  item's dimensions are those of the bitmap, the dimensions of a successful encoding
  are the ones the resolver returns.
\<close>

lemma encodeCanvas_dims:
  "encodeCanvas env canvas fw fh q p = Inr (blob, d) \<Longrightarrow>
   d = \<lparr>dim_width = fw, dim_height = fh\<rparr>"
  by (auto simp add: encodeCanvas_def split: if_splits option.splits)

lemma pipeline_dimensions:
  assumes "encodeFor env img p = Inr (blob, d)"
    and "createImageBitmap env (file_data (fileObj img)) = Some bmp"
    and "dimensions img =
      Some \<lparr>dim_width = Num (of_nat (bmp_width bmp)), dim_height = Num (of_nat (bmp_height bmp))\<rparr>"
    and "0 < bmp_width bmp" and "0 < bmp_height bmp"
  shows "calculateFinalDimensions img = Some d"
proof -
  let ?tw = "parseTarget (width img)" and ?th = "parseTarget (height img)"
  let ?W = "Num (of_nat (bmp_width bmp))" and ?H = "Num (of_nat (bmp_height bmp))"
  have imp: "importEncoder env"
    using assms(1) by (auto simp add: encodeFor_def compressImageWithJSquash_def split: if_splits)
  consider (none) "\<not> truthy ?tw" "\<not> truthy ?th"
    | (both) "truthy ?tw" "truthy ?th"
    | (w) "truthy ?tw" "\<not> truthy ?th"
    | (h) "\<not> truthy ?tw" "truthy ?th"
    by blast
  then show ?thesis
  proof cases
    case none
    then have "encodeFor env img p =
        encodeCanvas env \<lparr>canvas_width = ?W, canvas_height = ?H,
          canvas_paint = Some \<lparr>paint_image = bmp, paint_src = wholeBitmap bmp,
            paint_dst = wholeBitmap bmp\<rparr>\<rparr> ?W ?H (quality img) p"
      using imp assms(2) by (simp add: encodeFor_def compressImageWithJSquash_def Let_def)
    with assms(1) have "d = \<lparr>dim_width = ?W, dim_height = ?H\<rparr>"
      using encodeCanvas_dims by metis
    then show ?thesis
      using none assms(3) by (simp add: calculateFinalDimensions_def)
  next
    case both
    then have "encodeFor env img p =
        encodeCanvas env \<lparr>canvas_width = num_of ?tw, canvas_height = num_of ?th,
          canvas_paint = Some \<lparr>paint_image = bmp, paint_src = wholeBitmap bmp,
            paint_dst = (Num 0, Num 0, num_of ?tw, num_of ?th)\<rparr>\<rparr>
          (num_of ?tw) (num_of ?th) (quality img) p"
      using imp assms(2) by (simp add: encodeFor_def compressImageWithJSquash_def Let_def)
    with assms(1) have "d = \<lparr>dim_width = num_of ?tw, dim_height = num_of ?th\<rparr>"
      using encodeCanvas_dims by metis
    then show ?thesis
      using both assms(3) by (simp add: calculateFinalDimensions_def)
  next
    case w
    let ?fh = "Math_round (js_mul (js_div ?H ?W) (num_of ?tw))"
    from w have "encodeFor env img p =
        encodeCanvas env \<lparr>canvas_width = num_of ?tw, canvas_height = ?fh,
          canvas_paint = Some \<lparr>paint_image = bmp, paint_src = wholeBitmap bmp,
            paint_dst = (Num 0, Num 0, num_of ?tw, ?fh)\<rparr>\<rparr>
          (num_of ?tw) ?fh (quality img) p"
      using imp assms(2)
      by (simp add: encodeFor_def compressImageWithJSquash_def Let_def
          del: js_div.simps js_mul.simps Math_round.simps)
    with assms(1) have d: "d = \<lparr>dim_width = num_of ?tw, dim_height = ?fh\<rparr>"
      using encodeCanvas_dims by metis
    from truthy_parseTarget [OF w(1)] obtain r where r: "r \<noteq> 0" "?tw = Some (Num r)" by blast
    have "?fh = Math_round (js_div (num_of ?tw) (js_div ?W ?H))"
      using r assms(4,5) by (simp add: field_simps)
    then show ?thesis
      using w d assms(3)
      by (simp add: calculateFinalDimensions_def Let_def
          del: js_div.simps js_mul.simps Math_round.simps)
  next
    case h
    let ?fw = "Math_round (js_mul (js_div ?W ?H) (num_of ?th))"
    from h have "encodeFor env img p =
        encodeCanvas env \<lparr>canvas_width = ?fw, canvas_height = num_of ?th,
          canvas_paint = Some \<lparr>paint_image = bmp, paint_src = wholeBitmap bmp,
            paint_dst = (Num 0, Num 0, ?fw, num_of ?th)\<rparr>\<rparr>
          ?fw (num_of ?th) (quality img) p"
      using imp assms(2)
      by (simp add: encodeFor_def compressImageWithJSquash_def Let_def
          del: js_div.simps js_mul.simps Math_round.simps)
    with assms(1) have d: "d = \<lparr>dim_width = ?fw, dim_height = num_of ?th\<rparr>"
      using encodeCanvas_dims by metis
    from truthy_parseTarget [OF h(2)] obtain r where r: "r \<noteq> 0" "?th = Some (Num r)" by blast
    have "?fw = Math_round (js_mul (num_of ?th) (js_div ?W ?H))"
      using r assms(4,5) by (simp add: field_simps)
    then show ?thesis
      using h d assms(3)
      by (simp add: calculateFinalDimensions_def Let_def
          del: js_div.simps js_mul.simps Math_round.simps)
  qed
qed

section \<open>The size formatter: its units\<close>









section \<open>What the continuations do\<close>


lemma updatePreview_then_result:
  assumes "index < length (images w)"
  shows "updatePreview_then index blob w =
     Inr (w\<lparr>images := (images w)[index := (images w ! index)
                 \<lparr>compressedPreview := Some (next_url (urls w)),
                  compressedSize := Some (length (blob_data blob)),
                  processing := Some False\<rparr>],
            urls := \<lparr>live = insert (next_url (urls w)) (live (urls w)) -
                      set_option (compressedPreview (images w ! index)),
                    next_url = Suc (next_url (urls w))\<rparr>\<rparr>)"
  using assms
  by (cases "compressedPreview (images w ! index)")
     (simp_all add: updatePreview_then_def createObjectURL_def revokeObjectURL_def)

lemma compressImage_then_result:
  assumes "index < length (images w)"
  shows "compressImage_then index blob w =
     Inr (w\<lparr>images := (images w)[index := (images w ! index)
                 \<lparr>compressed := Some blob,
                  compressedSize := Some (length (blob_data blob)),
                  compressedPreview := Some (next_url (urls w)),
                  processing := Some False\<rparr>],
            urls := \<lparr>live = insert (next_url (urls w)) (live (urls w)) -
                      set_option (compressedPreview (images w ! index)),
                    next_url = Suc (next_url (urls w))\<rparr>,
            toasts := toasts w @ [SuccessToast ''Imagen comprimida correctamente'']\<rparr>)"
  using assms
  by (cases "compressedPreview (images w ! index)")
     (simp_all add: compressImage_then_def createObjectURL_def revokeObjectURL_def)

lemma removeImage_result:
  assumes "index < length (images w)"
  shows "removeImage index w =
     Inr (w\<lparr>images := take index (images w) @ drop (Suc index) (images w),
            urls := (urls w)\<lparr>live := live (urls w) - {preview (images w ! index)} -
                      set_option (compressedPreview (images w ! index))\<rparr>\<rparr>)"
  using assms
  by (cases "compressedPreview (images w ! index)")
     (simp_all add: removeImage_def revokeObjectURL_def)

lemma applyCrop_then_result:
  assumes "index < length (images w)" and "probeImage env f = Some dims"
  shows "applyCrop_then env index f blob w =
     Inr (w\<lparr>images := (images w)[index := (images w ! index)
                 \<lparr>fileObj := f, preview := next_url (urls w),
                  originalSize := length (blob_data blob),
                  dimensions := Some dims, compressedPreview := None,
                  compressed := None, compressedSize := None\<rparr>],
            urls := \<lparr>live = insert (Suc (next_url (urls w))) (insert (next_url (urls w)) (live (urls w))) -
                        {preview (images w ! index)} -
                        set_option (compressedPreview (images w ! index)),
                    next_url = Suc (Suc (next_url (urls w)))\<rparr>,
            cropModalOpen := False, currentCropIndex := None,
            toasts := toasts w @ [SuccessToast ''Imagen recortada correctamente'']\<rparr>)"
  using assms
  by (cases "compressedPreview (images w ! index)")
     (simp_all add: applyCrop_then_def createObjectURL_def revokeObjectURL_def)

lemma urlsFresh_sampleWorld: "urlsFresh sampleWorld"
  by (simp add: urlsFresh_def sampleWorld_def sampleImage_def emptyWorld_def)

section \<open>Handles of the preview slot\<close>

lemma regenerations_result:
  assumes "index < length (images w)"
    and "\<forall>u \<in> live (urls w). u < next_url (urls w)"
    and "\<forall>u. compressedPreview (images w ! index) = Some u \<longrightarrow> u < next_url (urls w)"
    and "blobs \<noteq> []"
  shows "\<exists>w'. regenerations index blobs w = Inr w' \<and>
           length (images w') = length (images w) \<and>
           compressedPreview (images w' ! index) = Some (next_url (urls w) + length blobs - 1) \<and>
           next_url (urls w') = next_url (urls w) + length blobs \<and>
           live (urls w') =
             insert (next_url (urls w) + length blobs - 1)
               (live (urls w) - set_option (compressedPreview (images w ! index)))"
  using assms
proof (induction blobs arbitrary: w)
  case Nil
  then show ?case by simp
next
  case (Cons blob blobs)
  let ?n = "next_url (urls w)"
  let ?w1 = "w\<lparr>images := (images w)[index := (images w ! index)
                 \<lparr>compressedPreview := Some ?n,
                  compressedSize := Some (length (blob_data blob)),
                  processing := Some False\<rparr>],
            urls := \<lparr>live = insert ?n (live (urls w)) -
                      set_option (compressedPreview (images w ! index)),
                    next_url = Suc ?n\<rparr>\<rparr>"
  have step: "updatePreview_then index blob w = Inr ?w1"
    using Cons.prems(1) by (rule updatePreview_then_result)
  have notin: "?n \<notin> live (urls w)"
    using Cons.prems(2) by auto
  have occ: "?n \<notin> set_option (compressedPreview (images w ! index))"
    using Cons.prems(3) by (cases "compressedPreview (images w ! index)") auto
  show ?case
  proof (cases "blobs = []")
    case True
    then show ?thesis
      using step occ Cons.prems(1) by auto
  next
    case False
    have a1: "index < length (images ?w1)" using Cons.prems(1) by simp
    have a2: "\<forall>u \<in> live (urls ?w1). u < next_url (urls ?w1)"
      using Cons.prems(2) by auto
    have a3: "\<forall>u. compressedPreview (images ?w1 ! index) = Some u \<longrightarrow> u < next_url (urls ?w1)"
      using Cons.prems(1) by simp
    from Cons.IH [OF a1 a2 a3 False]
    obtain w' where w': "regenerations index blobs ?w1 = Inr w'"
      "length (images w') = length (images ?w1)"
      "compressedPreview (images w' ! index) = Some (next_url (urls ?w1) + length blobs - 1)"
      "next_url (urls w') = next_url (urls ?w1) + length blobs"
      "live (urls w') =
             insert (next_url (urls ?w1) + length blobs - 1)
               (live (urls ?w1) - set_option (compressedPreview (images ?w1 ! index)))"
      by blast
    have "regenerations index (blob # blobs) w = Inr w'"
      using step w'(1) by simp
    moreover have "live (urls w') =
        insert (?n + length (blob # blobs) - 1)
          (live (urls w) - set_option (compressedPreview (images w ! index)))"
      using w'(5) notin Cons.prems(1) by auto
    ultimately show ?thesis
      using w'(2,3,4) by simp
  qed
qed

text \<open>
  C3. In a registry whose URLs were all made by the store, take an item and \<open>K \<ge> 1\<close>
  preview regenerations of it that complete one after the other. Afterwards the item
  holds the URL made last, which is the only live one among the \<open>K\<close> made: the \<open>K - 1\<close>
  before it are revoked, and so is the URL the slot held at the start. One completed
  regeneration and one completed explicit compression each put the new URL in the slot
  and leave the former occupant revoked. Removing the item leaves its source URL and
  its preview URL revoked.
\<close>

theorem preview_handles_one_live:
  assumes "index < length (images w)" and "urlsFresh w" and "blobs \<noteq> []"
  shows "(\<exists>w'. regenerations index blobs w = Inr w' \<and>
            compressedPreview (images w' ! index) = Some (next_url (urls w) + length blobs - 1) \<and>
            live (urls w') \<inter> {next_url (urls w) ..< next_url (urls w) + length blobs} =
              {next_url (urls w) + length blobs - 1} \<and>
            (\<forall>u. compressedPreview (images w ! index) = Some u \<longrightarrow> u \<notin> live (urls w'))) \<and>
         (\<exists>w'. updatePreview_then index blob w = Inr w' \<and>
            compressedPreview (images w' ! index) = Some (next_url (urls w)) \<and>
            next_url (urls w) \<in> live (urls w') \<and>
            (\<forall>u. compressedPreview (images w ! index) = Some u \<longrightarrow> u \<notin> live (urls w'))) \<and>
         (\<exists>w'. compressImage_then index blob w = Inr w' \<and>
            compressedPreview (images w' ! index) = Some (next_url (urls w)) \<and>
            next_url (urls w) \<in> live (urls w') \<and>
            (\<forall>u. compressedPreview (images w ! index) = Some u \<longrightarrow> u \<notin> live (urls w'))) \<and>
         (\<exists>w'. removeImage index w = Inr w' \<and>
            preview (images w ! index) \<notin> live (urls w') \<and>
            (\<forall>u. compressedPreview (images w ! index) = Some u \<longrightarrow> u \<notin> live (urls w')))"
proof -
  let ?n = "next_url (urls w)"
  have lv: "\<forall>u \<in> live (urls w). u < ?n"
    using assms(2) by (simp add: urlsFresh_def)
  have mem: "images w ! index \<in> set (images w)"
    using assms(1) by simp
  have occ: "\<forall>u. compressedPreview (images w ! index) = Some u \<longrightarrow> u < ?n"
    using assms(2) mem by (simp add: urlsFresh_def)
  from regenerations_result [OF assms(1) lv occ assms(3)]
  obtain w' where w': "regenerations index blobs w = Inr w'"
      "compressedPreview (images w' ! index) = Some (?n + length blobs - 1)"
      "live (urls w') =
         insert (?n + length blobs - 1)
           (live (urls w) - set_option (compressedPreview (images w ! index)))"
    by blast
  have "live (urls w') \<inter> {?n ..< ?n + length blobs} = {?n + length blobs - 1}"
    using w'(3) lv assms(3) by (cases blobs) auto
  moreover have "\<forall>u. compressedPreview (images w ! index) = Some u \<longrightarrow> u \<notin> live (urls w')"
    using w'(3) occ assms(3) by (cases blobs) auto
  ultimately have first: "\<exists>w'. regenerations index blobs w = Inr w' \<and>
            compressedPreview (images w' ! index) = Some (?n + length blobs - 1) \<and>
            live (urls w') \<inter> {?n ..< ?n + length blobs} = {?n + length blobs - 1} \<and>
            (\<forall>u. compressedPreview (images w ! index) = Some u \<longrightarrow> u \<notin> live (urls w'))"
    using w'(1,2) by blast
  have second: "\<exists>w'. updatePreview_then index blob w = Inr w' \<and>
            compressedPreview (images w' ! index) = Some ?n \<and>
            ?n \<in> live (urls w') \<and>
            (\<forall>u. compressedPreview (images w ! index) = Some u \<longrightarrow> u \<notin> live (urls w'))"
    using assms(1) occ by (auto simp add: updatePreview_then_result)
  have third: "\<exists>w'. compressImage_then index blob w = Inr w' \<and>
            compressedPreview (images w' ! index) = Some ?n \<and>
            ?n \<in> live (urls w') \<and>
            (\<forall>u. compressedPreview (images w ! index) = Some u \<longrightarrow> u \<notin> live (urls w'))"
    using assms(1) occ by (auto simp add: compressImage_then_result)
  have fourth: "\<exists>w'. removeImage index w = Inr w' \<and>
            preview (images w ! index) \<notin> live (urls w') \<and>
            (\<forall>u. compressedPreview (images w ! index) = Some u \<longrightarrow> u \<notin> live (urls w'))"
    using assms(1) by (auto simp add: removeImage_result)
  from first second third fourth show ?thesis by blast
qed

text \<open>
  Three regenerations of the item of the sample registry make the URLs 1, 2 and 3, of
  which 3 alone is live in the end; removing the item revokes its source URL 0.
\<close>

theorem preview_handles_one_live_witness:
  "(\<exists>w'. regenerations 0 [sampleBlob, sampleBlob, sampleBlob] sampleWorld = Inr w' \<and>
         compressedPreview (images w' ! 0) = Some 3 \<and>
         live (urls w') \<inter> {1 ..< 4} = {3}) \<and>
   (\<exists>w'. removeImage 0 sampleWorld = Inr w' \<and> 0 \<notin> live (urls w'))"
proof -
  have "0 < length (images sampleWorld)" "next_url (urls sampleWorld) = 1"
    "preview (images sampleWorld ! 0) = 0"
    by (simp_all add: sampleWorld_def sampleImage_def emptyWorld_def)
  then show ?thesis
    using preview_handles_one_live
      [of 0 sampleWorld "[sampleBlob, sampleBlob, sampleBlob]" sampleBlob]
      urlsFresh_sampleWorld
    by (simp add: eval_nat_numeral del: regenerations.simps) blast
qed

section \<open>Two preview tasks of one item\<close>

text \<open>
  C2, as the code has it. When two preview tasks of one item are in flight and the one
  started later completes first, the page shows the later task's result until the
  earlier task completes, and the earlier task's result from then on: the result that
  arrives last is the one displayed. Nothing is compared on arrival; the URL of the
  later task's result is revoked when the earlier task's result takes the slot.
\<close>

theorem later_completion_wins:
  assumes "index < length (images w)"
    and "encodeFor env imgOlder True = Inr (blobOlder, dimsOlder)"
    and "encodeFor env imgNewer True = Inr (blobNewer, dimsNewer)"
  shows "\<exists>w1 w2. settleTask env (PreviewTask index imgNewer) w = Inr w1 \<and>
           displayed index (Inr w1) =
             Some (Some (next_url (urls w)), Some (length (blob_data blobNewer))) \<and>
           settleTask env (PreviewTask index imgOlder) w1 = Inr w2 \<and>
           displayed index (Inr w2) =
             Some (Some (Suc (next_url (urls w))), Some (length (blob_data blobOlder))) \<and>
           next_url (urls w) \<notin> live (urls w2) \<and>
           Suc (next_url (urls w)) \<in> live (urls w2)"
  using assms
  by (simp add: settleTask_def updatePreview_then_result displayed_def imageAt_def)

text \<open>
  In the sample registry, with the later task encoding at quality 80 and the earlier
  one at 60: the page shows the URL 1 and 80 bytes, then the URL 2 and 60 bytes.
\<close>

theorem later_completion_wins_witness:
  "\<exists>w1 w2.
     settleTask sampleEnv (PreviewTask 0 ((sampleImage [] [])\<lparr>quality := 80\<rparr>)) sampleWorld = Inr w1 \<and>
     displayed 0 (Inr w1) = Some (Some 1, Some 80) \<and>
     settleTask sampleEnv (PreviewTask 0 ((sampleImage [] [])\<lparr>quality := 60\<rparr>)) w1 = Inr w2 \<and>
     displayed 0 (Inr w2) = Some (Some 2, Some 60) \<and>
     1 \<notin> live (urls w2) \<and> 2 \<in> live (urls w2)"
proof -
  have e: "encodeFor sampleEnv ((sampleImage [] [])\<lparr>quality := q\<rparr>) True =
      Inr (\<lparr>blob_data = replicate (nat q) 0, blob_type = ''image/avif''\<rparr>,
           \<lparr>dim_width = Num 1000, dim_height = Num 500\<rparr>)" for q
    by (simp add: encodeFor_def compressImageWithJSquash_def encodeCanvas_def sampleEnv_def
        sampleImage_def sampleFile_def parseTarget_def Let_def)
  have "0 < length (images sampleWorld)" "next_url (urls sampleWorld) = 1"
    by (simp_all add: sampleWorld_def emptyWorld_def)
  then show ?thesis
    using later_completion_wins [of 0 sampleWorld sampleEnv _ _ _ _ _ _, OF _ e [of 60] e [of 80]]
    by (simp add: eval_nat_numeral)
qed

text \<open>
  The claim as it was stated fails on this run. The first timer fires at 1510 ms and
  starts a task holding the quality 75, the second fires at 3100 ms and starts a task
  holding 60. The later task completes first and the page shows its 60 bytes at the
  URL 2; the earlier task then completes and the page shows its 75 bytes at the URL 3.
\<close>

theorem race_counterexample:
  "tasksInFlight (run sampleEnv raceScenario emptyWorld) =
     [(0, 75, None, None), (0, 60, None, None)] \<and>
   displayed 0 (run sampleEnv (raceScenario @ [(3300, Settle 1)]) emptyWorld) =
     Some (Some 2, Some 60) \<and>
   displayed 0 (run sampleEnv (raceScenario @ [(3300, Settle 1), (3400, Settle 0)]) emptyWorld) =
     Some (Some 3, Some 75)"
  by code_simp

section \<open>The debounce timer and the settings it encodes\<close>

text \<open>
  An edit stores the new value, cancels the timer the map holds for the index, and
  queues one timer, due 1500 ms later, which the map then holds. Timers of other
  indices stay in the queue. When the timer fires, the task it starts holds the item
  at that index of \<open>rendered\<close>, the array of the render whose handler made the edit,
  and not the item the edit has just changed.
\<close>

lemma edit_then_fire_holds_rendered:
  assumes "updateImageSettings rendered index s w = Inr w1" and "index < length rendered"
  shows "\<exists>tm. timerQueue w1 =
             (case previewTimeoutRefs w index of
                Some timeoutId \<Rightarrow>
                  if timeoutId \<noteq> 0 then clearTimeout timeoutId (timerQueue w) else timerQueue w
              | None \<Rightarrow> timerQueue w) @ [tm] \<and>
           timer_due tm = clock w + 1500 \<and> timer_index tm = index \<and>
           previewTimeoutRefs w1 index = Some (timer_id tm) \<and>
           images w1 = (images w)[index := applySetting s (images w ! index)] \<and>
           (\<forall>w2. fireTimer tm w1 = Inr w2 \<longrightarrow>
              inflight w2 = inflight w1 @ [PreviewTask index (rendered ! index)])"
proof -
  let ?tm = "\<lparr>timer_id = nextTimerId w, timer_due = clock w + 1500,
               timer_index = index, timer_images = rendered\<rparr>"
  have i: "index < length (images w)"
    using assms(1) by (simp add: updateImageSettings_def split: if_splits)
  have q: "timerQueue w1 =
             (case previewTimeoutRefs w index of
                Some timeoutId \<Rightarrow>
                  if timeoutId \<noteq> 0 then clearTimeout timeoutId (timerQueue w) else timerQueue w
              | None \<Rightarrow> timerQueue w) @ [?tm]"
    and r: "previewTimeoutRefs w1 index = Some (nextTimerId w)"
    and im: "images w1 = (images w)[index := applySetting s (images w ! index)]"
    and fl: "inflight w1 = inflight w"
    using assms(1) i by (auto simp add: updateImageSettings_def Let_def)
  have fire: "inflight w2 = inflight w1 @ [PreviewTask index (rendered ! index)]"
    if "fireTimer ?tm w1 = Inr w2" for w2
    using that assms(2)
    by (auto simp add: fireTimer_def updatePreview_start_def imageAt_def split: sum.splits)
  show ?thesis
    using q r im fire by (intro exI [of _ ?tm]) simp
qed

text \<open>
  C1, at a run where the code departs from it. The quality of a new item is set to 60
  at 10 ms and to 80 at 100 ms. At 1600 ms the timer of the second edit has fired and
  the first was cancelled: one preview task is in flight and no timer is left. The item
  has the quality 80, yet the task holds the quality 60, and the preview it delivers
  has the 60 bytes of an encoding at 60: \<^verbatim>\<open>updatePreview\<close> reads \<^verbatim>\<open>images\<close> of
  the render in which the second edit was made, which is the state before that edit.
\<close>

theorem debounce_encodes_stale_settings:
  "registrySettings (run sampleEnv debounceScenario emptyWorld) = [(80, None, None)] \<and>
   tasksInFlight (run sampleEnv debounceScenario emptyWorld) = [(0, 60, None, None)] \<and>
   displayed 0 (run sampleEnv (debounceScenario @ [(1700, Settle 0)]) emptyWorld) =
     Some (Some 2, Some 60)"
  by code_simp


section \<open>Failure of the encode pipeline\<close>







section \<open>Applying a crop\<close>





section \<open>A crop that cannot be materialised\<close>

text \<open>
  C6. When \<^verbatim>\<open>createCroppedImage\<close> fails, the state afterwards is the state before
  with one more toast, which reports the error: the items, with their sources, previews,
  compressed state, dimensions and settings, and the URLs are untouched. It fails when
  the canvas gives no context and when the canvas gives no blob.
\<close>

theorem crop_failure_leaves_item:
  "(createCroppedImage env (preview img) area = Inl err \<longrightarrow>
      settleTask env (CropTask index img area) w =
        Inr (w\<lparr>toasts := toasts w @ [ErrorToast ''Hubo un problema al recortar la imagen'']\<rparr>)) \<and>
   (fetchBlob env src = Some fetched \<and> createImageBitmap env fetched = Some bitmap \<and>
    \<not> getContext env \<lparr>canvas_width = Num 300, canvas_height = Num 150, canvas_paint = None\<rparr> \<longrightarrow>
      createCroppedImage env src area = Inl NoCanvasContext) \<and>
   (fetchBlob env src = Some fetched \<and> createImageBitmap env fetched = Some bitmap \<and>
    getContext env \<lparr>canvas_width = Num 300, canvas_height = Num 150, canvas_paint = None\<rparr> \<and>
    (\<forall>c. toBlob env c ''image/png'' = None) \<longrightarrow>
      createCroppedImage env src area = Inl BlobFailed)"
  by (auto simp add: settleTask_def applyCrop_catch_def createCroppedImage_def Let_def)

text \<open>Both failures on the sample registry.\<close>

theorem crop_failure_leaves_item_witness:
  "settleTask noContextEnv (CropTask 0 (sampleImage [] []) sampleArea) sampleWorld =
     Inr (sampleWorld\<lparr>toasts := [ErrorToast ''Hubo un problema al recortar la imagen'']\<rparr>) \<and>
   settleTask noBlobEnv (CropTask 0 (sampleImage [] []) sampleArea) sampleWorld =
     Inr (sampleWorld\<lparr>toasts := [ErrorToast ''Hubo un problema al recortar la imagen'']\<rparr>)"
proof -
  have a: "fetchBlob noContextEnv 0 = Some [7, 7, 7, 7]"
    "createImageBitmap noContextEnv [7, 7, 7, 7] =
       Some \<lparr>bmp_width = 1000, bmp_height = 500, bmp_pixels = [7, 7, 7, 7]\<rparr>"
    "\<not> getContext noContextEnv
        \<lparr>canvas_width = Num 300, canvas_height = Num 150, canvas_paint = None\<rparr>"
    by (simp_all add: noContextEnv_def sampleEnv_def)
  have b: "fetchBlob noBlobEnv 0 = Some [7, 7, 7, 7]"
    "createImageBitmap noBlobEnv [7, 7, 7, 7] =
       Some \<lparr>bmp_width = 1000, bmp_height = 500, bmp_pixels = [7, 7, 7, 7]\<rparr>"
    "getContext noBlobEnv
        \<lparr>canvas_width = Num 300, canvas_height = Num 150, canvas_paint = None\<rparr>"
    "\<forall>c. toBlob noBlobEnv c ''image/png'' = None"
    by (simp_all add: noBlobEnv_def sampleEnv_def)
  have p: "preview (sampleImage [] []) = 0" "toasts sampleWorld = []"
    by (simp_all add: sampleImage_def sampleWorld_def emptyWorld_def)
  show ?thesis
    using crop_failure_leaves_item
        [of noContextEnv "sampleImage [] []" sampleArea NoCanvasContext 0 sampleWorld 0]
      crop_failure_leaves_item
        [of noBlobEnv "sampleImage [] []" sampleArea BlobFailed 0 sampleWorld 0]
      a b p
    by simp
qed


section \<open>The settings of the items\<close>

text \<open>
  A setting is acceptable when it is a quality from 1 to 100, or a text for the width or
  the height that does not parse to a negative number; the settings of an item are
  valid when all three are so. Every operation but the edit of a setting leaves the
  settings of the items it keeps as they are.
\<close>

lemma settingsValid_other_fields [simp]:
  "settingsValid (img\<lparr>processing := a\<rparr>) = settingsValid img"
  "settingsValid (img\<lparr>compressedPreview := b\<rparr>) = settingsValid img"
  "settingsValid (img\<lparr>compressedSize := c\<rparr>) = settingsValid img"
  "settingsValid (img\<lparr>compressed := d\<rparr>) = settingsValid img"
  "settingsValid (img\<lparr>fileObj := e\<rparr>) = settingsValid img"
  "settingsValid (img\<lparr>preview := f\<rparr>) = settingsValid img"
  "settingsValid (img\<lparr>originalSize := g\<rparr>) = settingsValid img"
  "settingsValid (img\<lparr>dimensions := h\<rparr>) = settingsValid img"
  by (simp_all add: settingsValid_def)





















lemma updateImageSettings_images:
  assumes "updateImageSettings rendered index s w = Inr w'"
  shows "index < length (images w) \<and>
         images w' = (images w)[index := applySetting s (images w ! index)]"
  using assms by (auto simp add: updateImageSettings_def Let_def split: if_splits)

















section \<open>The URLs of a registry that a run has produced\<close>

text \<open>
  Starting from the empty registry, every run leads to a registry whose URLs were all
  made by the store: the premise of the theorems on handles holds of every state the
  program reaches.
\<close>

lemma urlsFresh_step:
  assumes "urlsFresh w"
    and "next_url (urls w) \<le> next_url (urls w')"
    and "\<forall>u \<in> live (urls w'). u \<in> live (urls w) \<or> u < next_url (urls w')"
    and "\<forall>img \<in> set (images w'). img \<in> set (images w) \<or>
           (preview img < next_url (urls w') \<and>
            (\<forall>u. compressedPreview img = Some u \<longrightarrow> u < next_url (urls w')))"
  shows "urlsFresh w'"
  unfolding urlsFresh_def
proof (intro conjI ballI allI impI)
  fix u assume "u \<in> live (urls w')"
  then show "u < next_url (urls w')"
    using assms(1,2,3) by (fastforce simp add: urlsFresh_def)
next
  fix img assume m: "img \<in> set (images w')"
  then show "preview img < next_url (urls w')"
    using assms(1,2,4) by (fastforce simp add: urlsFresh_def)
next
  fix img u assume m: "img \<in> set (images w')" and c: "compressedPreview img = Some u"
  then show "u < next_url (urls w')"
    using assms(1,2,4) by (fastforce simp add: urlsFresh_def)
qed

lemma urlsFresh_nth:
  assumes "urlsFresh w" and "index < length (images w)"
  shows "preview (images w ! index) < next_url (urls w) \<and>
         (\<forall>u. compressedPreview (images w ! index) = Some u \<longrightarrow> u < next_url (urls w))"
proof -
  have "images w ! index \<in> set (images w)" using assms(2) by simp
  then show ?thesis using assms(1) by (simp add: urlsFresh_def)
qed

lemma setProcessing_fresh:
  assumes "urlsFresh w" and "setProcessing index b (images w) = Inr imgs"
    and "images w' = imgs" and "urls w' = urls w"
  shows "urlsFresh w'"
proof -
  have i: "index < length (images w)"
    using assms(2) by (simp add: setProcessing_def split: if_splits)
  then have im: "images w' = (images w)[index := (images w ! index)\<lparr>processing := Some b\<rparr>]"
    using assms(2,3) by (simp add: setProcessing_def)
  have "set (images w') \<subseteq> insert ((images w ! index)\<lparr>processing := Some b\<rparr>) (set (images w))"
    unfolding im by (rule set_update_subset_insert)
  then have a: "\<forall>img \<in> set (images w'). img \<in> set (images w) \<or>
           (preview img < next_url (urls w') \<and>
            (\<forall>u. compressedPreview img = Some u \<longrightarrow> u < next_url (urls w')))"
    using urlsFresh_nth [OF assms(1) i] assms(4) by auto
  have b: "\<forall>u \<in> live (urls w'). u \<in> live (urls w) \<or> u < next_url (urls w')"
    using assms(4) by simp
  show ?thesis
    using assms(4) by (intro urlsFresh_step [OF assms(1) _ b a]) simp
qed

lemma updatePreview_start_fresh:
  assumes "urlsFresh w" and "updatePreview_start rendered index w = Inr w'"
  shows "urlsFresh w'"
proof (cases "imageAt rendered index")
  case None
  then show ?thesis using assms by (simp add: updatePreview_start_def)
next
  case (Some img)
  then obtain imgs where s: "setProcessing index True (images w) = Inr imgs"
    and w': "w' = w\<lparr>images := imgs, inflight := inflight w @ [PreviewTask index img]\<rparr>"
    using assms(2) by (auto simp add: updatePreview_start_def split: sum.splits)
  show ?thesis
    using setProcessing_fresh [OF assms(1) s, of w'] w' by simp
qed

lemma compressImage_start_fresh:
  assumes "urlsFresh w" and "compressImage_start rendered index w = Inr w'"
  shows "urlsFresh w'"
proof (cases "imageAt rendered index")
  case None
  then show ?thesis using assms by (simp add: compressImage_start_def)
next
  case (Some img)
  then obtain imgs where s: "setProcessing index True (images w) = Inr imgs"
    and w': "w' = w\<lparr>images := imgs, inflight := inflight w @ [CompressTask index img]\<rparr>"
    using assms(2) by (auto simp add: compressImage_start_def split: sum.splits)
  show ?thesis
    using setProcessing_fresh [OF assms(1) s, of w'] w' by simp
qed

lemma updatePreview_catch_fresh:
  assumes "urlsFresh w" and "updatePreview_catch index w = Inr w'"
  shows "urlsFresh w'"
proof -
  obtain imgs where s: "setProcessing index False (images w) = Inr imgs"
    and w': "w' = w\<lparr>images := imgs\<rparr>"
    using assms(2) by (auto simp add: updatePreview_catch_def split: sum.splits)
  show ?thesis
    using setProcessing_fresh [OF assms(1) s, of w'] w' by simp
qed

lemma compressImage_catch_fresh:
  assumes "urlsFresh w" and "compressImage_catch err index w = Inr w'"
  shows "urlsFresh w'"
proof -
  obtain imgs where s: "setProcessing index False (images w) = Inr imgs"
    and w': "w' = w\<lparr>images := imgs, toasts := toasts w @ [FailureToast err]\<rparr>"
    using assms(2) by (auto simp add: compressImage_catch_def split: sum.splits)
  show ?thesis
    using setProcessing_fresh [OF assms(1) s, of w'] w' by simp
qed

lemma updatePreview_then_fresh:
  assumes "urlsFresh w" and "updatePreview_then index blob w = Inr w'"
  shows "urlsFresh w'"
proof -
  let ?n = "next_url (urls w)"
  let ?x = "(images w ! index)\<lparr>compressedPreview := Some ?n,
              compressedSize := Some (length (blob_data blob)), processing := Some False\<rparr>"
  have i: "index < length (images w)"
    using assms(2)
    by (simp add: updatePreview_then_def createObjectURL_def split: if_splits)
  have im: "images w' = (images w)[index := ?x]"
    and nx: "next_url (urls w') = Suc ?n"
    and lv: "live (urls w') = insert ?n (live (urls w)) -
        set_option (compressedPreview (images w ! index))"
    using assms(2) unfolding updatePreview_then_result [OF i] by auto
  have "set (images w') \<subseteq> insert ?x (set (images w))"
    unfolding im by (rule set_update_subset_insert)
  then have a: "\<forall>img \<in> set (images w'). img \<in> set (images w) \<or>
           (preview img < next_url (urls w') \<and>
            (\<forall>u. compressedPreview img = Some u \<longrightarrow> u < next_url (urls w')))"
    using urlsFresh_nth [OF assms(1) i] nx by auto
  have b: "\<forall>u \<in> live (urls w'). u \<in> live (urls w) \<or> u < next_url (urls w')"
    using lv nx by auto
  show ?thesis
    using nx by (intro urlsFresh_step [OF assms(1) _ b a]) simp
qed

lemma compressImage_then_fresh:
  assumes "urlsFresh w" and "compressImage_then index blob w = Inr w'"
  shows "urlsFresh w'"
proof -
  let ?n = "next_url (urls w)"
  let ?x = "(images w ! index)\<lparr>compressed := Some blob,
              compressedSize := Some (length (blob_data blob)),
              compressedPreview := Some ?n, processing := Some False\<rparr>"
  have i: "index < length (images w)"
    using assms(2)
    by (simp add: compressImage_then_def createObjectURL_def split: if_splits)
  have im: "images w' = (images w)[index := ?x]"
    and nx: "next_url (urls w') = Suc ?n"
    and lv: "live (urls w') = insert ?n (live (urls w)) -
        set_option (compressedPreview (images w ! index))"
    using assms(2) unfolding compressImage_then_result [OF i] by auto
  have "set (images w') \<subseteq> insert ?x (set (images w))"
    unfolding im by (rule set_update_subset_insert)
  then have a: "\<forall>img \<in> set (images w'). img \<in> set (images w) \<or>
           (preview img < next_url (urls w') \<and>
            (\<forall>u. compressedPreview img = Some u \<longrightarrow> u < next_url (urls w')))"
    using urlsFresh_nth [OF assms(1) i] nx by auto
  have b: "\<forall>u \<in> live (urls w'). u \<in> live (urls w) \<or> u < next_url (urls w')"
    using lv nx by auto
  show ?thesis
    using nx by (intro urlsFresh_step [OF assms(1) _ b a]) simp
qed

lemma removeImage_fresh:
  assumes "urlsFresh w" and "removeImage index w = Inr w'"
  shows "urlsFresh w'"
proof -
  have i: "index < length (images w)"
    using assms(2) by (simp add: removeImage_def split: if_splits)
  have im: "images w' = take index (images w) @ drop (Suc index) (images w)"
    and nx: "next_url (urls w') = next_url (urls w)"
    and lv: "live (urls w') = live (urls w) - {preview (images w ! index)} -
        set_option (compressedPreview (images w ! index))"
    using assms(2) unfolding removeImage_result [OF i] by auto
  have "set (images w') \<subseteq> set (images w)"
    unfolding im
    using set_take_subset [of index "images w"] set_drop_subset [of "Suc index" "images w"]
    by auto
  then have a: "\<forall>img \<in> set (images w'). img \<in> set (images w) \<or>
           (preview img < next_url (urls w') \<and>
            (\<forall>u. compressedPreview img = Some u \<longrightarrow> u < next_url (urls w')))"
    by auto
  have b: "\<forall>u \<in> live (urls w'). u \<in> live (urls w) \<or> u < next_url (urls w')"
    using lv by auto
  show ?thesis
    using nx by (intro urlsFresh_step [OF assms(1) _ b a]) simp
qed

lemma applyCrop_then_stalls:
  assumes "probeImage env f = None"
  shows "applyCrop_then env index f blob w =
     Inr (w\<lparr>urls := \<lparr>live = insert (Suc (next_url (urls w)))
                             (insert (next_url (urls w)) (live (urls w))),
                         next_url = Suc (Suc (next_url (urls w)))\<rparr>\<rparr>)"
  using assms by (simp add: applyCrop_then_def createObjectURL_def)

lemma applyCrop_then_fresh:
  assumes "urlsFresh w" and "applyCrop_then env index f blob w = Inr w'"
  shows "urlsFresh w'"
proof (cases "probeImage env f")
  case None
  have w': "w' = w\<lparr>urls := \<lparr>live = insert (Suc (next_url (urls w)))
                             (insert (next_url (urls w)) (live (urls w))),
                         next_url = Suc (Suc (next_url (urls w)))\<rparr>\<rparr>"
    using assms(2) unfolding applyCrop_then_stalls [OF None] by simp
  have nx: "next_url (urls w) \<le> next_url (urls w')"
    unfolding w' by simp
  have a: "\<forall>img \<in> set (images w'). img \<in> set (images w) \<or>
           (preview img < next_url (urls w') \<and>
            (\<forall>u. compressedPreview img = Some u \<longrightarrow> u < next_url (urls w')))"
    unfolding w' by simp
  have b: "\<forall>u \<in> live (urls w'). u \<in> live (urls w) \<or> u < next_url (urls w')"
    unfolding w' by simp
  show ?thesis
    using assms(1) nx b a by (rule urlsFresh_step)
next
  case (Some dims)
  let ?n = "next_url (urls w)"
  let ?x = "(images w ! index)\<lparr>fileObj := f, preview := ?n,
              originalSize := length (blob_data blob), dimensions := Some dims,
              compressedPreview := None, compressed := None, compressedSize := None\<rparr>"
  have i: "index < length (images w)"
  proof (rule ccontr)
    assume "\<not> index < length (images w)"
    then have "applyCrop_then env index f blob w = Inl TypeError"
      using Some by (simp add: applyCrop_then_def createObjectURL_def)
    then show False using assms(2) by simp
  qed
  have res: "Inr w' = Inr (w\<lparr>images := (images w)[index := ?x],
      urls := \<lparr>live = insert (Suc ?n) (insert ?n (live (urls w))) -
                  {preview (images w ! index)} -
                  set_option (compressedPreview (images w ! index)),
               next_url = Suc (Suc ?n)\<rparr>,
      cropModalOpen := False, currentCropIndex := None,
      toasts := toasts w @ [SuccessToast ''Imagen recortada correctamente'']\<rparr>)"
    using assms(2) applyCrop_then_result [OF i Some, of blob] by simp
  have im: "images w' = (images w)[index := ?x]"
    using res by simp
  have nx: "next_url (urls w') = Suc (Suc ?n)"
    using res by simp
  have lv: "live (urls w') \<subseteq> insert (Suc ?n) (insert ?n (live (urls w)))"
    using res by auto
  have sub: "set (images w') \<subseteq> insert ?x (set (images w))"
    unfolding im by (rule set_update_subset_insert)
  have fx: "preview ?x < next_url (urls w') \<and>
      (\<forall>u. compressedPreview ?x = Some u \<longrightarrow> u < next_url (urls w'))"
    unfolding nx by simp
  have a: "\<forall>img \<in> set (images w'). img \<in> set (images w) \<or>
           (preview img < next_url (urls w') \<and>
            (\<forall>u. compressedPreview img = Some u \<longrightarrow> u < next_url (urls w')))"
    using sub fx by blast
  have b: "\<forall>u \<in> live (urls w'). u \<in> live (urls w) \<or> u < next_url (urls w')"
    using lv nx by auto
  have le: "next_url (urls w) \<le> next_url (urls w')"
    unfolding nx by simp
  show ?thesis
    using assms(1) le b a by (rule urlsFresh_step)
qed
lemma ingestFile_urls:
  assumes "ingestFile env f st = (r, st')"
  shows "next_url st' = Suc (Suc (next_url st)) \<and>
         live st' = insert (Suc (next_url st)) (insert (next_url st) (live st)) \<and>
         (\<forall>i. r = Some i \<longrightarrow> preview i = next_url st \<and> compressedPreview i = None)"
  using assms
  by (cases "probeImage env f") (auto simp add: ingestFile_def createObjectURL_def Let_def)

lemma ingestFiles_urls:
  "ingestFiles env files st = (r, st') \<Longrightarrow>
   next_url st \<le> next_url st' \<and>
   (\<forall>u \<in> live st'. u \<in> live st \<or> u < next_url st') \<and>
   (\<forall>new. r = Some new \<longrightarrow>
      (\<forall>i \<in> set new. preview i < next_url st' \<and> compressedPreview i = None))"
proof (induction files arbitrary: st r st')
  case Nil
  then show ?case by auto
next
  case (Cons f fs)
  obtain r1 st1 where r1: "ingestFile env f st = (r1, st1)" by (cases "ingestFile env f st")
  obtain rs st2 where rs: "ingestFiles env fs st1 = (rs, st2)" by (cases "ingestFiles env fs st1")
  have st': "st' = st2"
    and r: "r = (case r1 of None \<Rightarrow> None
                 | Some i \<Rightarrow> (case rs of None \<Rightarrow> None | Some is' \<Rightarrow> Some (i # is')))"
    using Cons.prems r1 rs by simp_all
  from ingestFile_urls [OF r1]
  have one: "next_url st1 = Suc (Suc (next_url st))"
    "live st1 = insert (Suc (next_url st)) (insert (next_url st) (live st))"
    "\<forall>i. r1 = Some i \<longrightarrow> preview i = next_url st \<and> compressedPreview i = None"
    by simp_all
  from Cons.IH [OF rs]
  have ih: "next_url st1 \<le> next_url st2"
    "\<forall>u \<in> live st2. u \<in> live st1 \<or> u < next_url st2"
    "\<forall>new. rs = Some new \<longrightarrow>
      (\<forall>i \<in> set new. preview i < next_url st2 \<and> compressedPreview i = None)"
    by simp_all
  have c1: "next_url st \<le> next_url st'"
    using one(1) ih(1) st' by simp
  have c2: "\<forall>u \<in> live st'. u \<in> live st \<or> u < next_url st'"
    using one(1,2) ih(1,2) st' by auto
  have c3: "\<forall>new. r = Some new \<longrightarrow>
      (\<forall>i \<in> set new. preview i < next_url st' \<and> compressedPreview i = None)"
  proof (intro allI impI)
    fix new assume n: "r = Some new"
    then obtain i is' where parts: "r1 = Some i" "rs = Some is'" "new = i # is'"
      using r by (auto split: option.splits)
    have "preview i < next_url st' \<and> compressedPreview i = None"
      using one(1,3) ih(1) parts(1) st' by simp
    moreover have "\<forall>j \<in> set is'. preview j < next_url st' \<and> compressedPreview j = None"
      using ih(3) parts(2) st' by simp
    ultimately show "\<forall>i \<in> set new. preview i < next_url st' \<and> compressedPreview i = None"
      using parts(3) by simp
  qed
  from c1 c2 c3 show ?case by blast
qed

lemma handleFileInput_fresh:
  assumes "urlsFresh w"
  shows "urlsFresh (handleFileInput env files w)"
proof -
  let ?w' = "handleFileInput env files w"
  obtain r st where r: "ingestFiles env files (urls w) = (r, st)"
    by (cases "ingestFiles env files (urls w)")
  from ingestFiles_urls [OF r]
  have u: "next_url (urls w) \<le> next_url st"
    "\<forall>u \<in> live st. u \<in> live (urls w) \<or> u < next_url st"
    "\<forall>new. r = Some new \<longrightarrow>
      (\<forall>i \<in> set new. preview i < next_url st \<and> compressedPreview i = None)"
    by simp_all
  have st: "urls ?w' = st"
    using r by (cases r) (simp_all add: handleFileInput_def)
  have im: "\<forall>img \<in> set (images ?w'). img \<in> set (images w) \<or>
           (preview img < next_url st \<and> compressedPreview img = None)"
    using r u(3) by (cases r) (auto simp add: handleFileInput_def)
  have a: "\<forall>img \<in> set (images ?w'). img \<in> set (images w) \<or>
           (preview img < next_url (urls ?w') \<and>
            (\<forall>u. compressedPreview img = Some u \<longrightarrow> u < next_url (urls ?w')))"
    using im unfolding st by auto
  have b: "\<forall>u \<in> live (urls ?w'). u \<in> live (urls w) \<or> u < next_url (urls ?w')"
    using u(2) unfolding st .
  have le: "next_url (urls w) \<le> next_url (urls ?w')"
    using u(1) unfolding st .
  show ?thesis
    using assms le b a by (rule urlsFresh_step)
qed

lemma handleDrop_fresh:
  assumes "urlsFresh w"
  shows "urlsFresh (handleDrop env files w)"
  using assms handleFileInput_fresh [OF assms]
  by (simp add: handleDrop_def Let_def urlsFresh_def)

lemma applySetting_urls:
  "preview (applySetting s img) = preview img \<and>
   compressedPreview (applySetting s img) = compressedPreview img"
  by (cases s) (simp_all add: applySetting_def)

lemma updateImageSettings_fresh:
  assumes "urlsFresh w" and "updateImageSettings rendered index s w = Inr w'"
  shows "urlsFresh w'"
proof -
  from updateImageSettings_images [OF assms(2)]
  have i: "index < length (images w)"
    and im: "images w' = (images w)[index := applySetting s (images w ! index)]"
    by simp_all
  have us: "urls w' = urls w"
    using assms(2) i by (auto simp add: updateImageSettings_def Let_def)
  have sub: "set (images w') \<subseteq> insert (applySetting s (images w ! index)) (set (images w))"
    unfolding im by (rule set_update_subset_insert)
  have fx: "preview (applySetting s (images w ! index)) < next_url (urls w') \<and>
      (\<forall>u. compressedPreview (applySetting s (images w ! index)) = Some u \<longrightarrow>
         u < next_url (urls w'))"
    using urlsFresh_nth [OF assms(1) i] applySetting_urls [of s "images w ! index"] us by simp
  have a: "\<forall>img \<in> set (images w'). img \<in> set (images w) \<or>
           (preview img < next_url (urls w') \<and>
            (\<forall>u. compressedPreview img = Some u \<longrightarrow> u < next_url (urls w')))"
    using sub fx by blast
  have b: "\<forall>u \<in> live (urls w'). u \<in> live (urls w) \<or> u < next_url (urls w')"
    using us by simp
  have le: "next_url (urls w) \<le> next_url (urls w')"
    using us by simp
  show ?thesis
    using assms(1) le b a by (rule urlsFresh_step)
qed

lemma urlsFresh_other_fields:
  "urlsFresh (w\<lparr>inflight := a\<rparr>) = urlsFresh w"
  "urlsFresh (w\<lparr>timerQueue := b\<rparr>) = urlsFresh w"
  "urlsFresh (w\<lparr>clock := c\<rparr>) = urlsFresh w"
  "urlsFresh (w\<lparr>toasts := d\<rparr>) = urlsFresh w"
  "urlsFresh (w\<lparr>cropModalOpen := e\<rparr>) = urlsFresh w"
  "urlsFresh (w\<lparr>currentCropIndex := f\<rparr>) = urlsFresh w"
  "urlsFresh (w\<lparr>croppedAreaPixels := g\<rparr>) = urlsFresh w"
  by (simp_all add: urlsFresh_def)

lemma settleTask_fresh:
  assumes "urlsFresh w" and "settleTask env task w = Inr w'"
  shows "urlsFresh w'"
proof (cases task)
  case (PreviewTask index img)
  show ?thesis
  proof (cases "encodeFor env img True")
    case (Inl err)
    then show ?thesis
      using assms PreviewTask updatePreview_catch_fresh [OF assms(1), of index w']
      by (simp add: settleTask_def)
  next
    case (Inr res)
    then show ?thesis
      using assms PreviewTask updatePreview_then_fresh [OF assms(1), of index "fst res" w']
      by (cases res) (simp add: settleTask_def)
  qed
next
  case (CompressTask index img)
  show ?thesis
  proof (cases "encodeFor env img False")
    case (Inl err)
    then show ?thesis
      using assms CompressTask compressImage_catch_fresh [OF assms(1), of err index w']
      by (simp add: settleTask_def)
  next
    case (Inr res)
    then show ?thesis
      using assms CompressTask compressImage_then_fresh [OF assms(1), of index "fst res" w']
      by (cases res) (simp add: settleTask_def)
  qed
next
  case (CropTask index img area)
  show ?thesis
  proof (cases "createCroppedImage env (preview img) area")
    case (Inl err)
    then have "w' = applyCrop_catch w"
      using assms(2) CropTask by (simp add: settleTask_def)
    then show ?thesis
      using assms(1) by (simp add: applyCrop_catch_def urlsFresh_other_fields)
  next
    case (Inr res)
    then show ?thesis
      using assms CropTask applyCrop_then_fresh [OF assms(1), of env index "fst res" "snd res" w']
      by (cases res) (simp add: settleTask_def)
  qed
qed

lemma settle_fresh:
  assumes "urlsFresh w" and "settle env k w = Inr w'"
  shows "urlsFresh w'"
proof (cases "k < length (inflight w)")
  case True
  let ?w1 = "w\<lparr>inflight := take k (inflight w) @ drop (Suc k) (inflight w)\<rparr>"
  have "urlsFresh ?w1" using assms(1) by (simp add: urlsFresh_other_fields)
  moreover have "settleTask env (inflight w ! k) ?w1 = Inr w'"
    using assms(2) True by (simp add: settle_def)
  ultimately show ?thesis by (rule settleTask_fresh)
next
  case False
  then show ?thesis using assms by (simp add: settle_def)
qed

lemma fireTimer_fresh:
  assumes "urlsFresh w" and "fireTimer tm w = Inr w'"
  shows "urlsFresh w'"
proof -
  let ?w1 = "w\<lparr>timerQueue := clearTimeout (timer_id tm) (timerQueue w)\<rparr>"
  have "urlsFresh ?w1" using assms(1) by (simp add: urlsFresh_other_fields)
  moreover have "updatePreview_start (timer_images tm) (timer_index tm) ?w1 = Inr w'"
    using assms(2) by (simp add: fireTimer_def)
  ultimately show ?thesis by (rule updatePreview_start_fresh)
qed

lemma fireAll_fresh:
  "urlsFresh w \<Longrightarrow> fireAll tms w = Inr w' \<Longrightarrow> urlsFresh w'"
proof (induction tms arbitrary: w)
  case Nil
  then show ?case by simp
next
  case (Cons tm tms)
  from Cons.prems(2) obtain w1 where w1: "fireTimer tm w = Inr w1" "fireAll tms w1 = Inr w'"
    by (auto split: sum.splits)
  from fireTimer_fresh [OF Cons.prems(1) w1(1)] Cons.IH w1(2) show ?case by blast
qed

lemma advance_fresh:
  assumes "urlsFresh w" and "advance t w = Inr w'"
  shows "urlsFresh w'"
proof -
  from assms(2) obtain w1
    where w1: "fireAll (filter (\<lambda>tm. timer_due tm \<le> t) (timerQueue w)) w = Inr w1"
      and w': "w' = w1\<lparr>clock := max t (clock w1)\<rparr>"
    by (auto simp add: advance_def split: sum.splits)
  from fireAll_fresh [OF assms(1) w1] w' show ?thesis by (simp add: urlsFresh_other_fields)
qed

lemma applyCrop_start_fresh:
  assumes "urlsFresh w"
  shows "urlsFresh (applyCrop_start rendered w)"
  using assms
  by (simp add: applyCrop_start_def urlsFresh_other_fields split: option.splits)

lemma dispatch_fresh:
  assumes "urlsFresh w" and "dispatch env a w = Inr w'"
  shows "urlsFresh w'"
proof (cases a)
  case (FileInput files)
  then show ?thesis using assms handleFileInput_fresh [OF assms(1), of env files]
    by (auto simp add: dispatch_def)
next
  case (Drop files)
  then show ?thesis using assms handleDrop_fresh [OF assms(1), of env files]
    by (auto simp add: dispatch_def)
next
  case (UpdateSetting index s)
  then show ?thesis
    using assms updateImageSettings_fresh [OF assms(1), of "images w" index s w']
    by (simp add: dispatch_def)
next
  case (Compress index)
  then show ?thesis using assms compressImage_start_fresh [OF assms(1), of "images w" index w']
    by (simp add: dispatch_def)
next
  case (Remove index)
  then show ?thesis using assms removeImage_fresh [OF assms(1), of index w']
    by (simp add: dispatch_def)
next
  case (OpenCrop index)
  then have "w' = openCropModal index w" using assms(2) by (simp add: dispatch_def)
  then show ?thesis using assms(1) by (simp add: openCropModal_def urlsFresh_def)
next
  case (CropComplete area)
  then have "w' = onCropComplete area w" using assms(2) by (simp add: dispatch_def)
  then show ?thesis using assms(1) by (simp add: onCropComplete_def urlsFresh_def)
next
  case ApplyCrop
  then have "w' = applyCrop_start (images w) w" using assms(2) by (simp add: dispatch_def)
  then show ?thesis using applyCrop_start_fresh [OF assms(1)] by simp
next
  case (Settle k)
  then show ?thesis using assms settle_fresh [OF assms(1), of env k w']
    by (simp add: dispatch_def)
next
  case Wait
  then show ?thesis using assms by (simp add: dispatch_def)
qed

lemma run_fresh:
  "urlsFresh w \<Longrightarrow> run env events w = Inr w' \<Longrightarrow> urlsFresh w'"
proof (induction events arbitrary: w)
  case Nil
  then show ?case by simp
next
  case (Cons e events)
  obtain t a where e: "e = (t, a)" by (cases e)
  from Cons.prems(2) e obtain w1 w2 where steps: "advance t w = Inr w1"
      "dispatch env a w1 = Inr w2" "run env events w2 = Inr w'"
    by (auto split: sum.splits)
  have "urlsFresh w1" using advance_fresh [OF Cons.prems(1) steps(1)] .
  then have "urlsFresh w2" using steps(2) by (rule dispatch_fresh)
  then show ?case using Cons.IH [of w2] steps(3) by simp
qed

lemma urlsFresh_emptyWorld: "urlsFresh emptyWorld"
  by (simp add: urlsFresh_def emptyWorld_def)

end
